theory Spec2Isabelle
  imports Main "HOL-Library.Char_ord" "HOL-Library.List_Lexorder" "HOL-Library.Multiset"
    "HOL-Library.Word"
begin

unbundle bit_operations_syntax

section \<open>cindex: the driver of the trigram index (cmd/cindex/cindex.go)\<close>

text \<open>
  A Go string is a sequence of bytes, compared byte by byte; \<open>string\<close> (a list of
  8-bit characters) with the lexicographic order of \<open>List_Lexorder\<close> over the
  character order of \<open>Char_ord\<close> is the same order, the empty string least.
  File contents are byte sequences too.
\<close>

type_synonym path = string
type_synonym bytes = string
type_synonym errmsg = string

subsection \<open>Log lines\<close>

text \<open>
  Each \<open>log.Printf\<close> of the source is one constructor, carrying the values that are
  formatted; the text of the format string is not modelled.
\<close>

datatype log_entry =
    ResolveError path errmsg       \<comment> \<open>line 108: \<open>log.Printf("%s: %s", arg, err)\<close>\<close>
  | EncodingError string errmsg    \<comment> \<open>line 139: \<open>log.Printf("%q: %+v", enc, err)\<close>\<close>
  | IndexRoot path                 \<comment> \<open>line 149: \<open>log.Printf("index %s", arg)\<close>\<close>
  | TraverseError path errmsg      \<comment> \<open>line 161: \<open>log.Printf("%s: %s", path, err)\<close>\<close>
  | FlushIndex                     \<comment> \<open>line 175\<close>
  | MergeIndex path path           \<comment> \<open>line 179: \<open>log.Printf("merge %s %s", master, file)\<close>\<close>
  | Done                           \<comment> \<open>line 184\<close>

subsection \<open>Translating the arguments to absolute paths (lines 105-121)\<close>

text \<open>
  \<open>filepath.Abs\<close> and \<open>os.Readlink\<close> ask the operating system; they are parameters:
  \<open>Inl\<close> is the error they return.
\<close>

record os_paths =
  Abs :: "path \<Rightarrow> errmsg + path"
  Readlink :: "path \<Rightarrow> errmsg + path"

text \<open>
  The body of the loop over \<open>args\<close>: the new value of \<open>args[i]\<close> and what is logged.
  A failing \<open>Abs\<close> stores the empty string; a \<open>Readlink\<close> that succeeds with a
  non-empty target replaces the absolute path by that target, read once.
\<close>

definition resolve_arg :: "os_paths \<Rightarrow> path \<Rightarrow> path \<times> log_entry list" where
  "resolve_arg os arg =
     (case Abs os arg of
        Inl err \<Rightarrow> ('''', [ResolveError arg err])
      | Inr a \<Rightarrow>
          (case Readlink os a of
             Inr s \<Rightarrow> if s \<noteq> '''' then (s, []) else (a, [])
           | Inl _ \<Rightarrow> (a, [])))"

fun resolve_args :: "os_paths \<Rightarrow> path list \<Rightarrow> path list \<times> log_entry list" where
  "resolve_args os [] = ([], [])"
| "resolve_args os (arg # args) =
     (let (a, l) = resolve_arg os arg;
          (as, ls) = resolve_args os args
      in (a # as, l @ ls))"

text \<open>
  \<open>sort.Strings(args)\<close>, then the loop that drops the leading empty strings
  (\<open>for len(args) > 0 && args[0] == "" { args = args[1:] }\<close>).
\<close>

definition canonical_args :: "os_paths \<Rightarrow> path list \<Rightarrow> path list \<times> log_entry list" where
  "canonical_args os args =
     (let (as, ls) = resolve_args os args
      in (dropWhile (\<lambda>a. a = '''') (sort as), ls))"

subsection \<open>The candidate encodings (lines 132-143)\<close>

text \<open>
  An \<open>encoding.Encoding\<close> of \<open>golang.org/x/text\<close> is used by the source only
  through \<open>NewDecoder().Reader\<close>: a decoder reads a byte stream to its end and either
  delivers the decoded bytes or stops with a decode error. \<open>Inl n\<close> is that error, after
  \<open>n\<close> bytes of the stream have been consumed.
\<close>

record encoding =
  enc_name :: string
  decode :: "bytes \<Rightarrow> nat + bytes"

text \<open>\<open>strings.Split(s, ",")\<close>: the pieces between commas; one empty piece for the empty string.\<close>

fun split_comma :: "string \<Rightarrow> string list" where
  "split_comma [] = [[]]"
| "split_comma (c # cs) =
     (if c = CHR '','' then [] # split_comma cs
      else (case split_comma cs of
              [] \<Rightarrow> [[c]]
            | x # xs \<Rightarrow> (c # x) # xs))"

text \<open>
  \<open>strings.TrimSpace\<close>, for the white space of ASCII (tab, line feed, vertical tab, form
  feed, carriage return, space); the white space beyond ASCII, which is several bytes in
  UTF-8, is not trimmed here.
\<close>

definition is_space :: "char \<Rightarrow> bool" where
  "is_space c \<longleftrightarrow> c \<in> {CHR 0x09, CHR 0x0A, CHR 0x0B, CHR 0x0C, CHR 0x0D, CHR '' ''}"

definition TrimSpace :: "string \<Rightarrow> string" where
  "TrimSpace s = rev (dropWhile is_space (rev (dropWhile is_space s)))"

text \<open>
  The loop over the pieces of \<open>-encodings\<close>: empty names are passed over, an unknown name
  (\<open>htmlindex.Get\<close> returns an error) is logged and ends \<open>main\<close>. \<open>Inl\<close> is the log
  line of that early return.
\<close>

fun parse_encodings ::
  "(string \<Rightarrow> errmsg + encoding) \<Rightarrow> string list \<Rightarrow> encoding list \<Rightarrow> log_entry + encoding list"
where
  "parse_encodings get [] encodings = Inr encodings"
| "parse_encodings get (enc # rest) encodings =
     (let enc = TrimSpace enc
      in if enc = [] then parse_encodings get rest encodings
         else (case get enc of
                 Inl err \<Rightarrow> Inl (EncodingError enc err)
               | Inr e \<Rightarrow> parse_encodings get rest (encodings @ [e])))"

subsection \<open>The file tree that is walked\<close>

text \<open>
  What the operating system answers for one path. \<open>content\<close> is what reading the file
  from its start gives, \<open>open_error\<close> the error of \<open>os.Open\<close> if it fails, and
  \<open>seek_error = Some (k, e)\<close> says that the \<open>k\<close>-th \<open>Seek(0, 0)\<close> on a handle of
  the file (counted from 0) fails with \<open>e\<close>.
\<close>

record osfile =
  content :: bytes
  open_error :: "errmsg option"
  seek_error :: "(nat \<times> errmsg) option"

text \<open>
  \<open>NoStat e\<close>: \<open>os.Lstat\<close> of the path fails with \<open>e\<close>. Otherwise \<open>Node m f rd cs\<close>:
  \<open>Lstat\<close> gives the mode bits \<open>m\<close> (an \<open>os.FileMode\<close>, 32 bits), \<open>f\<close> is the file behind
  the path, \<open>rd\<close> the error of reading the directory's names if that fails, and \<open>cs\<close>
  the directory's entries by name, in the order \<open>readDirNames\<close> returns them.
\<close>

datatype entry =
    NoStat errmsg
  | Node "32 word" osfile "errmsg option" "(string \<times> entry) list"

text \<open>The constants of package \<open>os\<close> (Go 1.12 and later).\<close>

definition ModeDir :: "32 word" where "ModeDir = 0x80000000"
definition ModeType :: "32 word" where "ModeType = 0x8F280000"

definition IsDir :: "32 word \<Rightarrow> bool" where
  "IsDir m \<longleftrightarrow> m AND ModeDir \<noteq> 0"

subsection \<open>The index writer and the state of a run\<close>

text \<open>
  Modelled from the spec: package \<open>index\<close> (\<open>github.com/google/codesearch/index\<close>) is
  not under src/. An index file holds the registered roots and the added (path, content)
  pairs. \<open>createBuilder(path)\<close> gives a session on that target file, with a mutable
  \<open>verbose\<close> flag; \<open>registerRoots\<close> records the roots; \<open>add\<close> queues one file's content
  under its path; \<open>flush\<close> writes all pending content to the target file.
\<close>

record index_file =
  roots :: "path list"
  docs :: "(path \<times> bytes) list"

record writer =
  target :: path
  wroots :: "path list"
  wdocs :: "(path \<times> bytes) list"
  Verbose :: bool

definition AddPaths :: "path list \<Rightarrow> writer \<Rightarrow> writer" where
  "AddPaths paths w = w\<lparr>wroots := wroots w @ paths\<rparr>"

definition Add :: "path \<Rightarrow> bytes \<Rightarrow> writer \<Rightarrow> writer" where
  "Add name data w = w\<lparr>wdocs := wdocs w @ [(name, data)]\<rparr>"

text \<open>
  The state the walk changes: the writer \<open>ix\<close>, the log, and the paths of the file
  handles that are open (one entry for each \<open>os.Open\<close> that has not been closed).
\<close>

record run =
  ix :: writer
  logs :: "log_entry list"
  fds :: "path list"

subsection \<open>openEncoded (lines 188-210)\<close>

record handle =
  hpath :: path
  hfile :: osfile
  hpos :: nat
  hseeks :: nat

definition os_Open :: "path \<Rightarrow> entry \<Rightarrow> errmsg + handle" where
  "os_Open name e =
     (case e of
        NoStat err \<Rightarrow> Inl err
      | Node m f rd cs \<Rightarrow>
          (case open_error f of
             Some err \<Rightarrow> Inl err
           | None \<Rightarrow> Inr \<lparr>hpath = name, hfile = f, hpos = 0, hseeks = 0\<rparr>))"

text \<open>\<open>fh.Seek(0, 0)\<close>.\<close>

definition Seek0 :: "handle \<Rightarrow> errmsg + handle" where
  "Seek0 fh =
     (case seek_error (hfile fh) of
        Some (k, err) \<Rightarrow>
          if k = hseeks fh then Inl err else Inr (fh\<lparr>hpos := 0, hseeks := hseeks fh + 1\<rparr>)
      | None \<Rightarrow> Inr (fh\<lparr>hpos := 0, hseeks := hseeks fh + 1\<rparr>))"

text \<open>What is still to be read from the handle.\<close>

definition remaining :: "handle \<Rightarrow> bytes" where
  "remaining fh = drop (hpos fh) (content (hfile fh))"

text \<open>
  \<open>io.Copy(ioutil.Discard, enc.NewDecoder().Reader(fh))\<close>: whether it returned no error,
  and the handle afterwards (at the end of the file, or where the decoder stopped).
\<close>

definition copy_discard :: "encoding \<Rightarrow> handle \<Rightarrow> bool \<times> handle" where
  "copy_discard enc fh =
     (case decode enc (remaining fh) of
        Inr out \<Rightarrow> (True, fh\<lparr>hpos := length (content (hfile fh))\<rparr>)
      | Inl n \<Rightarrow> (False, fh\<lparr>hpos := min (length (content (hfile fh))) (hpos fh + n)\<rparr>))"

text \<open>The loop over the encodings (lines 194-202), with the variable \<open>found\<close>.\<close>

fun probe :: "handle \<Rightarrow> encoding list \<Rightarrow> encoding option \<Rightarrow> errmsg + handle \<times> encoding option" where
  "probe fh [] found = Inr (fh, found)"
| "probe fh (enc # encodings) found =
     (let (ok, fh1) = copy_discard enc fh;
          found1 = (if ok then Some enc else found)
      in case Seek0 fh1 of
           Inl err \<Rightarrow> Inl err
         | Inr fh2 \<Rightarrow> probe fh2 encodings found1)"

text \<open>
  The \<open>io.ReadCloser\<close> that is returned: the handle itself when \<open>found\<close> is nil,
  else the handle read through the decoder of \<open>found\<close>; closing either closes the handle.
\<close>

record reader =
  rhandle :: handle
  rdecoder :: "encoding option"

definition openEncoded :: "path \<Rightarrow> entry \<Rightarrow> encoding list \<Rightarrow> run \<Rightarrow> (errmsg + reader) \<times> run" where
  "openEncoded name e encodings s =
     (case os_Open name e of
        Inl err \<Rightarrow> (Inl err, s)
      | Inr fh \<Rightarrow>
          (let s1 = s\<lparr>fds := name # fds s\<rparr>
           in case probe fh encodings None of
                Inl err \<Rightarrow> (Inl err, s1)
              | Inr (fh1, found) \<Rightarrow> (Inr \<lparr>rhandle = fh1, rdecoder = found\<rparr>, s1)))"

text \<open>Reading the returned stream to its end, as \<open>ix.Add\<close> does.\<close>

definition read_all :: "reader \<Rightarrow> nat + bytes" where
  "read_all r =
     (case rdecoder r of
        None \<Rightarrow> Inr (remaining (rhandle r))
      | Some enc \<Rightarrow> decode enc (remaining (rhandle r)))"

definition Close :: "reader \<Rightarrow> run \<Rightarrow> run" where
  "Close r s = s\<lparr>fds := remove1 (hpath (rhandle r)) (fds s)\<rparr>"

subsection \<open>Paths of package \<open>path/filepath\<close>\<close>

text \<open>
  \<open>filepath.Split\<close> (Unix): the path is cut after its last slash; the second part is the
  base name the callback inspects.
\<close>

definition Split :: "path \<Rightarrow> path \<times> string" where
  "Split p =
     (let elem = rev (takeWhile (\<lambda>c. c \<noteq> CHR ''/'') (rev p))
      in (take (length p - length elem) p, elem))"

text \<open>
  \<open>filepath.Join(path, name)\<close> as the walk calls it, for a directory path in clean form and
  the name of one of its entries: the two joined by one slash. (\<open>Join\<close> also cleans its
  result; on a clean directory path and an entry name that changes nothing.)
\<close>

definition Join :: "path \<Rightarrow> string \<Rightarrow> path" where
  "Join dir name =
     (if dir = [] then name
      else if last dir = CHR ''/'' then dir @ name
      else dir @ ''/'' @ name)"

subsection \<open>The callback of the walk (lines 150-173)\<close>

text \<open>
  What the callback returns: \<open>None\<close> is Go's \<open>nil\<close>; \<open>SkipDir\<close> is \<open>filepath.SkipDir\<close>;
  \<open>Failure path err\<close> is \<open>fmt.Errorf("%q: %w", path, err)\<close>. \<open>Panic\<close> is not a
  returned value: the callback did not return, the process ends (a method called on a nil
  \<open>os.FileInfo\<close>).
\<close>

datatype walk_error = SkipDir | Failure path errmsg | Panic

text \<open>The test of line 153 on a non-empty base name.\<close>

definition skipped_name :: "string \<Rightarrow> bool" where
  "skipped_name elem \<longleftrightarrow>
     hd elem = CHR ''.'' \<or> hd elem = CHR ''#'' \<or> hd elem = CHR ''~'' \<or> last elem = CHR ''~''"

text \<open>
  \<open>e\<close> is what the operating system has at \<open>path\<close> (\<open>os.Open\<close> inside \<open>openEncoded\<close>
  asks it); \<open>info\<close> and \<open>err\<close> are what \<open>filepath.Walk\<close> passes: \<open>info = None\<close> is a nil
  \<open>os.FileInfo\<close>, on which \<open>info.IsDir()\<close> panics.

  Modelled from the spec: \<open>ix.Add\<close> of package \<open>index\<close> (not under src/) reads the stream to
  its end and queues the content; a failure reading the stream is fatal for the run.
\<close>

definition walkFn ::
  "encoding list \<Rightarrow> path \<Rightarrow> entry \<Rightarrow> 32 word option \<Rightarrow> errmsg option \<Rightarrow> run \<Rightarrow> walk_error option \<times> run"
where
  "walkFn encodings path e info err s =
     (let elem = snd (Split path)
      in if elem \<noteq> [] \<and> skipped_name elem then
           (case info of
              None \<Rightarrow> (Some Panic, s)
            | Some m \<Rightarrow> if IsDir m then (Some SkipDir, s) else (None, s))
         else
           (case err of
              Some x \<Rightarrow> (None, s\<lparr>logs := logs s @ [TraverseError path x]\<rparr>)
            | None \<Rightarrow>
                (case info of
                   None \<Rightarrow> (None, s)
                 | Some m \<Rightarrow>
                     if m AND ModeType = 0 then
                       (case openEncoded path e encodings s of
                          (Inl x, s1) \<Rightarrow> (Some (Failure path x), s1)
                        | (Inr r, s1) \<Rightarrow>
                            (case read_all r of
                               Inl n \<Rightarrow> (Some Panic, s1)
                             | Inr data \<Rightarrow> (None, Close r (s1\<lparr>ix := Add path data (ix s1)\<rparr>))))
                     else (None, s))))"

subsection \<open>filepath.Walk\<close>

text \<open>
  \<open>filepath.Walk\<close> is not under src/: it belongs to the Go standard library
  (\<open>path/filepath\<close>), and is written here after the library: a depth-first descent
  that calls the callback on every entry. \<open>walk\<close> is \<open>Lstat\<close> of the path and what
  follows it, for the root and for each entry alike: a path whose \<open>Lstat\<close> fails is passed
  to the callback with a nil \<open>info\<close> and that error; a non-directory is passed to the
  callback; for a directory the names are read, the callback is called with the error of
  that reading (if any), and unless either failed the entries are visited in order
  (\<open>walk_names\<close>, the loop over the names). \<open>SkipDir\<close> from a directory skips that
  directory, from a file the rest of its directory; any other error ends the walk.
\<close>

fun walk :: "encoding list \<Rightarrow> path \<Rightarrow> entry \<Rightarrow> run \<Rightarrow> walk_error option \<times> run"
and walk_names :: "encoding list \<Rightarrow> path \<Rightarrow> (string \<times> entry) list \<Rightarrow> run \<Rightarrow> walk_error option \<times> run"
where
  "walk encodings path (NoStat x) s = walkFn encodings path (NoStat x) None (Some x) s"
| "walk encodings path (Node m f rd cs) s =
     (if \<not> IsDir m then walkFn encodings path (Node m f rd cs) (Some m) None s
      else
        (let (err1, s1) = walkFn encodings path (Node m f rd cs) (Some m) rd s
         in if rd \<noteq> None \<or> err1 \<noteq> None then (err1, s1)
            else walk_names encodings path cs s1))"
| "walk_names encodings path [] s = (None, s)"
| "walk_names encodings path ((name, e) # rest) s =
     (let filename = Join path name;
          (err, s1) = walk encodings filename e s;
          stop = (case e of
                    NoStat x \<Rightarrow> err \<noteq> None \<and> err \<noteq> Some SkipDir
                  | Node m f rd cs \<Rightarrow> err \<noteq> None \<and> (\<not> IsDir m \<or> err \<noteq> Some SkipDir))
      in if stop then (err, s1) else walk_names encodings path rest s1)"

text \<open>\<open>filepath.Walk(root, fn)\<close>: \<open>SkipDir\<close> from the root is not an error.\<close>

definition Walk :: "encoding list \<Rightarrow> path \<Rightarrow> entry \<Rightarrow> run \<Rightarrow> walk_error option \<times> run" where
  "Walk encodings root e s =
     (let (err, s1) = walk encodings root e s
      in if err = Some SkipDir then (None, s1) else (err, s1))"

subsection \<open>The index files on disk\<close>

type_synonym store = "path \<rightharpoonup> index_file"

text \<open>
  Modelled from the spec: the operations of package \<open>index\<close> on the index files.
  \<open>open(path).listRoots()\<close> gives the roots recorded in the index (none where there is no
  index). \<open>createBuilder(path)\<close> gives a session whose target file is \<open>path\<close>; the spec
  gives it no effect on any file. \<open>flush\<close> writes the session's roots and content to the
  target file: an index file comes to be, or is replaced, at the flush.
  \<open>merge\<close> writes to its destination and to no other file: the entries of the staging
  index, and of the old index those whose path the staging index does not have. (The
  source calls it with the destination, the master and the staging file, in this order:
  line 180.)
\<close>

definition Paths :: "store \<Rightarrow> path \<Rightarrow> path list" where
  "Paths st name = (case st name of None \<Rightarrow> [] | Some i \<Rightarrow> roots i)"

definition Create :: "path \<Rightarrow> writer" where
  "Create name = \<lparr>target = name, wroots = [], wdocs = [], Verbose = False\<rparr>"

definition Flush :: "writer \<Rightarrow> store \<Rightarrow> store" where
  "Flush w st = st(target w \<mapsto> \<lparr>roots = wroots w, docs = wdocs w\<rparr>)"

definition merge_index :: "index_file \<Rightarrow> index_file \<Rightarrow> index_file" where
  "merge_index old new =
     \<lparr>roots = sort (remdups (roots old @ roots new)),
      docs = filter (\<lambda>d. fst d \<notin> set (map fst (docs new))) (docs old) @ docs new\<rparr>"

definition Merge :: "path \<Rightarrow> path \<Rightarrow> path \<Rightarrow> store \<Rightarrow> store" where
  "Merge dst src1 src2 st =
     (case (st src1, st src2) of
        (Some old, Some new) \<Rightarrow> st(dst \<mapsto> merge_index old new)
      | _ \<Rightarrow> st)"

text \<open>\<open>os.Stat\<close>, \<open>os.Remove\<close> and \<open>os.Rename\<close> on these files; the source ignores their errors.\<close>

definition Stat_ok :: "store \<Rightarrow> path \<Rightarrow> bool" where
  "Stat_ok st name \<longleftrightarrow> st name \<noteq> None"

definition Remove :: "path \<Rightarrow> store \<Rightarrow> store" where
  "Remove name st = st(name := None)"

definition Rename :: "path \<Rightarrow> path \<Rightarrow> store \<Rightarrow> store" where
  "Rename old new st =
     (case st old of
        None \<Rightarrow> st
      | Some i \<Rightarrow> (st(old := None))(new \<mapsto> i))"

subsection \<open>main (lines 69-186)\<close>

record flags =
  listFlag :: bool
  resetFlag :: bool
  verboseFlag :: bool
  encodingsFlag :: string

text \<open>
  What \<open>main\<close> reads from its surroundings: \<open>master\<close> is \<open>index.File()\<close>, the location of
  the published index; \<open>fs root\<close> is the file tree found at a root; \<open>Get\<close> is
  \<open>htmlindex.Get\<close>. The CPU profile (\<open>-cpuprofile\<close>) is left out.
\<close>

record env =
  master :: path
  sys :: os_paths
  fs :: "path \<Rightarrow> entry"
  Get :: "string \<Rightarrow> errmsg + encoding"

text \<open>
  The loop over the roots (lines 148-174). The value \<open>filepath.Walk\<close> returns is
  dropped by the source; only a panic, which is no return, ends the loop (\<open>True\<close>).
\<close>

fun index_roots :: "encoding list \<Rightarrow> (path \<Rightarrow> entry) \<Rightarrow> path list \<Rightarrow> run \<Rightarrow> bool \<times> run" where
  "index_roots encodings tree [] s = (False, s)"
| "index_roots encodings tree (arg # args) s =
     (let s1 = s\<lparr>logs := logs s @ [IndexRoot arg]\<rparr>;
          (err, s2) = Walk encodings arg (tree arg) s1
      in if err = Some Panic then (True, s2)
         else index_roots encodings tree args s2)"

text \<open>
  How a run ends and what it leaves: \<open>trace\<close> lists the index files as they are when
  the session has been created and then after each call that writes them (\<open>Flush\<close>,
  \<open>Merge\<close>, \<open>Remove\<close>, \<open>Rename\<close>), in order; the last one is what the run leaves on
  disk, \<open>store\<close>. \<open>session\<close> is the writer, if one was created; \<open>open_files\<close> are the
  handles still open.
\<close>

datatype status = Returned | Panicked

record result =
  status :: status
  store :: store
  trace :: "store list"
  log :: "log_entry list"
  stdout :: "path list"
  session :: "writer option"
  open_files :: "path list"

definition main :: "env \<Rightarrow> flags \<Rightarrow> path list \<Rightarrow> store \<Rightarrow> result" where
  "main env fl args st0 =
     (if listFlag fl then
        \<lparr>status = Returned, store = st0, trace = [], log = [],
         stdout = Paths st0 (master env), session = None, open_files = []\<rparr>
      else if resetFlag fl \<and> args = [] then
        \<lparr>status = Returned, store = Remove (master env) st0, trace = [Remove (master env) st0],
         log = [], stdout = [], session = None, open_files = []\<rparr>
      else
        (let args1 = (if args = [] then Paths st0 (master env) else args);
             (args2, lg) = canonical_args (sys env) args1;
             reset = (resetFlag fl \<or> \<not> Stat_ok st0 (master env));
             file = (if \<not> reset then master env @ ''~'' else master env)
         in case parse_encodings (Get env) (split_comma (encodingsFlag fl)) [] of
              Inl l \<Rightarrow>
                \<lparr>status = Returned, store = st0, trace = [], log = lg @ [l],
                 stdout = [], session = None, open_files = []\<rparr>
            | Inr encodings \<Rightarrow>
                (let w0 = Create file;
                     w1 = AddPaths args2 (w0\<lparr>Verbose := verboseFlag fl\<rparr>);
                     (panicked, s) =
                        index_roots encodings (fs env) args2 \<lparr>ix = w1, logs = lg, fds = []\<rparr>
                 in if panicked then
                      \<lparr>status = Panicked, store = st0, trace = [st0], log = logs s,
                       stdout = [], session = Some (ix s), open_files = fds s\<rparr>
                    else
                      (let st2 = Flush (ix s) st0;
                           lg2 = logs s @ [FlushIndex]
                       in if \<not> reset then
                            (let st3 = Merge (file @ ''~'') (master env) file st2;
                                 st4 = Remove file st3;
                                 st5 = Rename (file @ ''~'') (master env) st4
                             in \<lparr>status = Returned, store = st5,
                                 trace = [st0, st2, st3, st4, st5],
                                 log = lg2 @ [MergeIndex (master env) file, Done],
                                 stdout = [], session = Some (ix s), open_files = fds s\<rparr>)
                          else
                            \<lparr>status = Returned, store = st2, trace = [st0, st2],
                             log = lg2 @ [Done],
                             stdout = [], session = Some (ix s), open_files = fds s\<rparr>))))"

section \<open>Notions the properties are stated with\<close>

text \<open>A candidate validates a file's bytes when its decoder reads them to the end without error.\<close>

definition validates :: "encoding \<Rightarrow> bytes \<Rightarrow> bool" where
  "validates enc data = (case decode enc data of Inl n \<Rightarrow> False | Inr out \<Rightarrow> True)"

text \<open>The spec's tie-break: the last candidate in the list that validates, if any does.\<close>

definition last_match :: "encoding list \<Rightarrow> bytes \<Rightarrow> encoding option" where
  "last_match encodings data =
     (case filter (\<lambda>enc. validates enc data) encodings of
        [] \<Rightarrow> None
      | ms \<Rightarrow> Some (last ms))"

text \<open>
  The callback's own test on a path (lines 151-153): the text after the last slash is not
  empty and is a skipped name. This is the code's test, not the base name of the entry: for
  a path that ends in a slash that text is empty and the test is False, whatever the
  directory is called.
\<close>

definition hidden :: "path \<Rightarrow> bool" where
  "hidden p \<longleftrightarrow> snd (Split p) \<noteq> [] \<and> skipped_name (snd (Split p))"

text \<open>
  The paths of the entries of a tree on which that test is False, from the root down to the
  entry: below a path on which it is True nothing is listed.
\<close>

fun reachable :: "path \<Rightarrow> entry \<Rightarrow> path list"
and reachable_names :: "path \<Rightarrow> (string \<times> entry) list \<Rightarrow> path list"
where
  "reachable p (NoStat x) = (if hidden p then [] else [p])"
| "reachable p (Node m f rd cs) = (if hidden p then [] else p # reachable_names p cs)"
| "reachable_names p [] = []"
| "reachable_names p ((name, e) # rest) = reachable (Join p name) e @ reachable_names p rest"




text \<open>The paths that have been handed to the index.\<close>

definition indexed :: "run \<Rightarrow> path set" where
  "indexed s = set (map fst (wdocs (ix s)))"

text \<open>
  The error \<open>filepath.Walk\<close> has for an entry: that of \<open>Lstat\<close>, or for a directory that
  of reading its names. \<open>has_info\<close>: \<open>Lstat\<close> succeeded, the callback gets a non-nil
  \<open>info\<close>.
\<close>

definition traversal_error :: "entry \<Rightarrow> errmsg option" where
  "traversal_error e =
     (case e of
        NoStat x \<Rightarrow> Some x
      | Node m f rd cs \<Rightarrow> if IsDir m then rd else None)"

definition has_info :: "entry \<Rightarrow> bool" where
  "has_info e = (case e of NoStat x \<Rightarrow> False | Node m f rd cs \<Rightarrow> True)"

section \<open>Concrete inputs\<close>

text \<open>
  Paths that are absolute already and no symbolic links (\<open>Readlink\<close> fails on every path,
  the error naming the path); and a chain of links \<open>/A\<close> to \<open>/B\<close> to \<open>/C\<close>.
\<close>

definition plain_os :: os_paths where
  "plain_os = \<lparr>Abs = Inr, Readlink = Inl\<rparr>"

definition link_os :: os_paths where
  "link_os =
     \<lparr>Abs = Inr,
      Readlink = (\<lambda>p. if p = ''/A'' then Inr ''/B''
                       else if p = ''/B'' then Inr ''/C'' else Inl ''invalid argument'')\<rparr>"

text \<open>A link \<open>/L\<close> to \<open>/T\<close>, which is no link.\<close>

definition target_os :: os_paths where
  "target_os =
     \<lparr>Abs = Inr,
      Readlink = (\<lambda>p. if p = ''/L'' then Inr ''/T'' else Inl ''invalid argument'')\<rparr>"

text \<open>
  A decoder that accepts every input and writes its own name before the bytes, so that
  the decoder a content went through can be read off; and one that accepts nothing.
\<close>

definition mark_enc :: "string \<Rightarrow> encoding" where
  "mark_enc tag = \<lparr>enc_name = tag, decode = (\<lambda>data. Inr (tag @ data))\<rparr>"

definition reject_enc :: encoding where
  "reject_enc = \<lparr>enc_name = ''strict'', decode = (\<lambda>data. Inl 0)\<rparr>"

text \<open>A regular file (mode 0644), a directory (mode \<open>ModeDir\<close> with 0755), a run about to start.\<close>

definition regular :: "bytes \<Rightarrow> entry" where
  "regular c = Node 0x1A4 \<lparr>content = c, open_error = None, seek_error = None\<rparr> None []"

definition directory :: "(string \<times> entry) list \<Rightarrow> entry" where
  "directory cs =
     Node 0x800001ED \<lparr>content = [], open_error = None, seek_error = None\<rparr> None cs"

definition run0 :: run where
  "run0 =
     \<lparr>ix = \<lparr>target = ''/idx'', wroots = [], wdocs = [], Verbose = False\<rparr>,
      logs = [], fds = []\<rparr>"

definition project_tree :: entry where
  "project_tree =
     directory
       [(''.git'', directory [(''foo.txt'', regular ''skip me'')]),
        (''a.txt'', regular ''hello''),
        (''foo~'', regular ''skip me too'')]"

text \<open>A directory (mode \<open>ModeDir\<close> with 0700) whose names cannot be read.\<close>

definition locked_dir :: entry where
  "locked_dir =
     Node 0x800001C0 \<lparr>content = [], open_error = None, seek_error = None\<rparr>
       (Some ''permission denied'') []"

text \<open>
  A machine: \<open>utf8\<close> is the one encoding name that is known; \<open>/r\<close> is the project tree,
  \<open>/a\<close> a regular file that cannot be opened, \<open>/b\<close> a regular file, \<open>/s\<close> a regular
  file on which \<open>Seek\<close> fails, and nothing else exists. The published index is \<open>/idx\<close>.
\<close>

definition known_encodings :: "string \<Rightarrow> errmsg + encoding" where
  "known_encodings name =
     (if name = ''utf8'' then Inr (mark_enc ''utf8'') else Inl ''htmlindex: invalid encoding name'')"

definition demo_fs :: "path \<Rightarrow> entry" where
  "demo_fs p =
     (if p = ''/r'' then project_tree
      else if p = ''/a'' then
        Node 0x1A4 \<lparr>content = ''secret'', open_error = Some ''permission denied'', seek_error = None\<rparr> None []
      else if p = ''/b'' then regular ''hello''
      else if p = ''/s'' then
        Node 0x1A4 \<lparr>content = ''hello'', open_error = None, seek_error = Some (0, ''illegal seek'')\<rparr> None []
      else NoStat ''no such file or directory'')"

definition demo_env :: env where
  "demo_env = \<lparr>master = ''/idx'', sys = plain_os, fs = demo_fs, Get = known_encodings\<rparr>"

definition no_flags :: flags where
  "no_flags = \<lparr>listFlag = False, resetFlag = False, verboseFlag = False, encodingsFlag = []\<rparr>"

definition old_index :: index_file where
  "old_index = \<lparr>roots = [''/old''], docs = [(''/old/x'', ''x'')]\<rparr>"

definition demo_store :: store where
  "demo_store = [''/idx'' \<mapsto> old_index]"



section \<open>Properties\<close>

subsection \<open>Unfolding main on a concrete input\<close>

lemmas eval_defs = main_def demo_env_def demo_fs_def demo_store_def no_flags_def known_encodings_def
  plain_os_def canonical_args_def resolve_arg_def Stat_ok_def Create_def AddPaths_def Flush_def
  Merge_def Remove_def Rename_def merge_index_def Paths_def Walk_def walkFn_def Split_def Join_def
  skipped_name_def IsDir_def ModeDir_def ModeType_def openEncoded_def os_Open_def Seek0_def
  copy_discard_def remaining_def read_all_def Close_def Add_def regular_def directory_def
  project_tree_def mark_enc_def TrimSpace_def is_space_def old_index_def Let_def


subsection \<open>The resolved arguments\<close>

lemma fst_resolve_args: "fst (resolve_args osp args) = map (\<lambda>a. fst (resolve_arg osp a)) args"
  by (induction args) (simp_all add: Let_def split_def)

text \<open>In a sorted list of strings the empty ones come first, so dropping them from the front drops them all.\<close>

lemma dropWhile_empty_sorted:
  "sorted (xs :: string list) \<Longrightarrow> dropWhile (\<lambda>a. a = []) xs = filter (\<lambda>a. a \<noteq> []) xs"
proof (induction xs)
  case Nil
  then show ?case by simp
next
  case (Cons x xs)
  show ?case
  proof (cases "x = []")
    case True
    with Cons show ?thesis by simp
  next
    case False
    have "\<forall>y\<in>set xs. y \<noteq> []"
    proof
      fix y assume "y \<in> set xs"
      with Cons.prems have "x \<le> y" by simp
      with False show "y \<noteq> []" by auto
    qed
    then have "filter (\<lambda>a. a \<noteq> []) xs = xs" by (simp add: filter_id_conv)
    with False show ?thesis by simp
  qed
qed

lemma fst_canonical_args:
  "fst (canonical_args osp args) =
     filter (\<lambda>a. a \<noteq> []) (sort (map (\<lambda>a. fst (resolve_arg osp a)) args))"
  by (simp add: canonical_args_def split_def Let_def fst_resolve_args dropWhile_empty_sorted)

text \<open>
  C2, as the code has it: for every list of raw arguments the paths handed to indexing are
  sorted and none is empty, and they are the non-empty resolved arguments, each as often
  as the arguments gave it. The source sorts and drops the empty strings; it has no step
  that removes duplicates.
\<close>

theorem canonical_args_sorted_nonempty:
  "sorted (fst (canonical_args osp args)) \<and>
   [] \<notin> set (fst (canonical_args osp args)) \<and>
   mset (fst (canonical_args osp args)) =
     mset (filter (\<lambda>a. a \<noteq> []) (map (\<lambda>a. fst (resolve_arg osp a)) args))"
  by (simp add: fst_canonical_args sorted_wrt_filter)

theorem canonical_args_sorted_nonempty_witness:
  "fst (canonical_args plain_os [''/b'', [], ''/a'', ''/b'']) = [''/a'', ''/b'', ''/b'']"
  using canonical_args_sorted_nonempty [of plain_os "[''/b'', [], ''/a'', ''/b'']"]
  by (simp add: canonical_args_def resolve_arg_def plain_os_def)

text \<open>C2 as stated fails: an argument given twice is handed to indexing twice.\<close>

theorem canonical_args_keeps_duplicates:
  "fst (canonical_args plain_os [''/a'', ''/a'']) = [''/a'', ''/a''] \<and>
   \<not> distinct (fst (canonical_args plain_os [''/a'', ''/a'']))"
  by (simp add: canonical_args_def resolve_arg_def plain_os_def)

text \<open>
  C7: the link is read once. For every argument of the list whose absolute form \<open>a\<close> is a
  link with the non-empty text \<open>b\<close>, the argument resolves to \<open>b\<close>, which is so handed
  to indexing, whatever \<open>b\<close> is: a link to some other \<open>c\<close> (the result is not \<open>c\<close>) or
  no link at all. When \<open>a\<close> is no link (\<open>Readlink\<close> fails), the argument resolves to
  \<open>a\<close>.
\<close>

theorem readlink_applied_once:
  assumes "i < length args" and "Abs osp (args ! i) = Inr a"
  shows "(\<forall>b. Readlink osp a = Inr b \<and> b \<noteq> [] \<longrightarrow>
            fst (resolve_arg osp (args ! i)) = b \<and>
            fst (resolve_args osp args) ! i = b \<and>
            b \<in> set (fst (canonical_args osp args)) \<and>
            (\<forall>c. Readlink osp b = Inr c \<and> c \<noteq> b \<longrightarrow> fst (resolve_args osp args) ! i \<noteq> c)) \<and>
         (\<forall>e. Readlink osp a = Inl e \<longrightarrow>
            fst (resolve_arg osp (args ! i)) = a \<and>
            fst (resolve_args osp args) ! i = a \<and>
            (a \<noteq> [] \<longrightarrow> a \<in> set (fst (canonical_args osp args))))"
proof (intro conjI allI impI)
  fix b assume b: "Readlink osp a = Inr b \<and> b \<noteq> []"
  with assms(2) show r: "fst (resolve_arg osp (args ! i)) = b" by (simp add: resolve_arg_def)
  with assms(1) show n: "fst (resolve_args osp args) ! i = b" by (simp add: fst_resolve_args)
  from assms(1) r have "b \<in> set (map (\<lambda>a. fst (resolve_arg osp a)) args)"
    by (metis length_map nth_map nth_mem)
  with b show "b \<in> set (fst (canonical_args osp args))" by (simp add: fst_canonical_args)
  fix c assume "Readlink osp b = Inr c \<and> c \<noteq> b"
  with n show "fst (resolve_args osp args) ! i \<noteq> c" by auto
next
  fix e assume e: "Readlink osp a = Inl e"
  with assms(2) show r: "fst (resolve_arg osp (args ! i)) = a" by (simp add: resolve_arg_def)
  with assms(1) show "fst (resolve_args osp args) ! i = a" by (simp add: fst_resolve_args)
  assume "a \<noteq> []"
  moreover from assms(1) r have "a \<in> set (map (\<lambda>a. fst (resolve_arg osp a)) args)"
    by (metis length_map nth_map nth_mem)
  ultimately show "a \<in> set (fst (canonical_args osp args))" by (simp add: fst_canonical_args)
qed

theorem readlink_applied_once_witness:
  "fst (resolve_args link_os [''/C'', ''/A'']) ! 1 = ''/B'' \<and>
   fst (resolve_args link_os [''/C'', ''/A'']) ! 0 = ''/C'' \<and>
   fst (canonical_args link_os [''/C'', ''/A'']) = [''/B'', ''/C''] \<and>
   fst (canonical_args target_os [''/L'']) = [''/T'']"
proof -
  have l: "(0::nat) < length [''/C'', ''/A'']" "(1::nat) < length [''/C'', ''/A'']" "(0::nat) < length [''/L'']"
    by simp_all
  have a: "Abs link_os ([''/C'', ''/A''] ! 1) = Inr ''/A''" "Abs link_os ([''/C'', ''/A''] ! 0) = Inr ''/C''"
    by (simp_all add: link_os_def)
  have a': "Abs target_os ([''/L''] ! 0) = Inr ''/L''" by (simp add: target_os_def)
  have r: "Readlink link_os ''/A'' = Inr ''/B''" "Readlink link_os ''/C'' = Inl ''invalid argument''"
    by (simp_all add: link_os_def)
  have r': "Readlink target_os ''/L'' = Inr ''/T''" by (simp add: target_os_def)
  from readlink_applied_once [OF l(2) a(1)] r(1)
  have 1: "fst (resolve_args link_os [''/C'', ''/A'']) ! 1 = ''/B''" by simp
  from readlink_applied_once [OF l(1) a(2)] r(2)
  have 0: "fst (resolve_args link_os [''/C'', ''/A'']) ! 0 = ''/C''" by simp
  from readlink_applied_once [OF l(3) a'] r'
  have 2: "''/T'' \<in> set (fst (canonical_args target_os [''/L'']))" by simp
  have c: "fst (canonical_args link_os [''/C'', ''/A'']) = [''/B'', ''/C'']"
    by (simp add: canonical_args_def resolve_arg_def link_os_def)
  have "length (fst (canonical_args target_os [''/L''])) \<le> 1"
    unfolding fst_canonical_args by (rule order_trans [OF length_filter_le]) simp
  with 2 have "fst (canonical_args target_os [''/L'']) = [''/T'']"
    by (cases "fst (canonical_args target_os [''/L''])") auto
  with 0 1 c show ?thesis by simp
qed

subsection \<open>openEncoded: the last candidate that validates\<close>

lemma Seek0_Inr: "Seek0 fh = Inr fh2 \<Longrightarrow> hpos fh2 = 0 \<and> hfile fh2 = hfile fh \<and> hpath fh2 = hpath fh"
  by (auto simp: Seek0_def split: option.splits prod.splits if_splits)

lemma copy_discard_frame: "hfile (snd (copy_discard enc fh)) = hfile fh \<and> hpath (snd (copy_discard enc fh)) = hpath fh"
  by (simp add: copy_discard_def split: sum.splits)

lemma copy_discard_ok: "hpos fh = 0 \<Longrightarrow> fst (copy_discard enc fh) = validates enc (content (hfile fh))"
  by (simp add: copy_discard_def validates_def remaining_def split: sum.splits)

lemma last_match_Cons:
  "last_match (enc # encodings) data =
     (case last_match encodings data of
        Some e \<Rightarrow> Some e
      | None \<Rightarrow> if validates enc data then Some enc else None)"
  by (simp add: last_match_def split: list.splits)

lemma probe_result:
  "hpos fh = 0 \<Longrightarrow> probe fh encodings found = Inr (fh1, found1) \<Longrightarrow>
     hpos fh1 = 0 \<and> hfile fh1 = hfile fh \<and> hpath fh1 = hpath fh \<and>
     found1 = (case last_match encodings (content (hfile fh)) of None \<Rightarrow> found | Some e \<Rightarrow> Some e)"
proof (induction encodings arbitrary: fh found)
  case Nil
  then show ?case by (simp add: last_match_def)
next
  case (Cons enc encodings)
  obtain ok fh' where cd: "copy_discard enc fh = (ok, fh')" by (cases "copy_discard enc fh")
  from Cons.prems(2) cd obtain fh2 where sk: "Seek0 fh' = Inr fh2"
    and pr: "probe fh2 encodings (if ok then Some enc else found) = Inr (fh1, found1)"
    by (auto split: sum.splits)
  from cd copy_discard_frame [of enc fh] have fr: "hfile fh' = hfile fh" "hpath fh' = hpath fh" by simp_all
  from cd copy_discard_ok [OF Cons.prems(1), of enc] have ok: "ok = validates enc (content (hfile fh))" by simp
  from Seek0_Inr [OF sk] fr have p2: "hpos fh2 = 0" "hfile fh2 = hfile fh" "hpath fh2 = hpath fh" by simp_all
  from Cons.IH [OF p2(1) pr] p2 ok show ?case
    by (simp add: last_match_Cons split: option.splits)
qed

lemma probe_no_seek_error:
  "seek_error (hfile fh) = None \<Longrightarrow> \<exists>fh1 found1. probe fh encodings found = Inr (fh1, found1)"
proof (induction encodings arbitrary: fh found)
  case Nil
  then show ?case by simp
next
  case (Cons enc encodings)
  obtain ok fh' where cd: "copy_discard enc fh = (ok, fh')" by (cases "copy_discard enc fh")
  with copy_discard_frame [of enc fh] Cons.prems have "seek_error (hfile fh') = None" by simp
  then obtain fh2 where sk: "Seek0 fh' = Inr fh2" and "seek_error (hfile fh2) = None"
    by (auto simp: Seek0_def)
  with Cons.IH [of fh2] cd show ?case by simp
qed

lemma last_match_validates: "last_match encodings data = Some enc \<Longrightarrow> validates enc data \<and> enc \<in> set encodings"
proof -
  assume a: "last_match encodings data = Some enc"
  let ?ms = "filter (\<lambda>enc. validates enc data) encodings"
  from a have "?ms \<noteq> []" and "enc = last ?ms" by (auto simp: last_match_def split: list.splits)
  then have "enc \<in> set ?ms" using last_in_set by blast
  then show ?thesis by simp
qed

text \<open>
  C4: for a file that opens and rewinds, \<open>openEncoded\<close> returns a stream (and leaves one
  handle open for it) whose content is the file's bytes decoded by the last candidate of
  the list that validates them; when no candidate validates, and so for the empty list,
  it is the file's bytes unchanged.
\<close>

theorem openEncoded_last_match_wins:
  assumes "open_error f = None" and "seek_error f = None"
  shows "\<exists>r. openEncoded name (Node m f rd cs) encodings s = (Inr r, s\<lparr>fds := name # fds s\<rparr>) \<and>
             (case last_match encodings (content f) of
                None \<Rightarrow> read_all r = Inr (content f)
              | Some enc \<Rightarrow> read_all r = decode enc (content f) \<and> validates enc (content f))"
proof -
  let ?fh = "\<lparr>hpath = name, hfile = f, hpos = 0, hseeks = 0\<rparr>"
  from assms(1) have op: "os_Open name (Node m f rd cs) = Inr ?fh" by (simp add: os_Open_def)
  from assms(2) probe_no_seek_error [of ?fh encodings None]
  obtain fh1 found1 where pr: "probe ?fh encodings None = Inr (fh1, found1)" by auto
  from probe_result [OF _ pr]
  have r: "hpos fh1 = 0" "hfile fh1 = f" "found1 = last_match encodings (content f)"
    by (simp_all split: option.splits)
  let ?r = "\<lparr>rhandle = fh1, rdecoder = found1\<rparr>"
  from op pr have "openEncoded name (Node m f rd cs) encodings s = (Inr ?r, s\<lparr>fds := name # fds s\<rparr>)"
    by (simp add: openEncoded_def)
  moreover from r have "case last_match encodings (content f) of
                None \<Rightarrow> read_all ?r = Inr (content f)
              | Some enc \<Rightarrow> read_all ?r = decode enc (content f) \<and> validates enc (content f)"
    by (auto simp: read_all_def remaining_def split: option.splits dest: last_match_validates)
  ultimately show ?thesis by blast
qed

theorem openEncoded_last_match_wins_witness:
  "(case fst (openEncoded ''/r/a.txt'' (regular ''hello'') [mark_enc ''E1'', mark_enc ''E2''] run0) of
      Inr r \<Rightarrow> read_all r | Inl x \<Rightarrow> Inl 0) = Inr ''E2hello'' \<and>
   (case fst (openEncoded ''/r/a.txt'' (regular ''hello'') [mark_enc ''E1'', reject_enc] run0) of
      Inr r \<Rightarrow> read_all r | Inl x \<Rightarrow> Inl 0) = Inr ''E1hello'' \<and>
   (case fst (openEncoded ''/r/a.txt'' (regular ''hello'') [reject_enc] run0) of
      Inr r \<Rightarrow> read_all r | Inl x \<Rightarrow> Inl 0) = Inr ''hello'' \<and>
   (case fst (openEncoded ''/r/a.txt'' (regular ''hello'') [] run0) of
      Inr r \<Rightarrow> read_all r | Inl x \<Rightarrow> Inl 0) = Inr ''hello''"
proof -
  let ?f = "\<lparr>content = ''hello'', open_error = None, seek_error = None\<rparr>"
  have o: "open_error ?f = None" and k: "seek_error ?f = None" by simp_all
  have c: "content ?f = ''hello''" by simp
  have v: "last_match [mark_enc ''E1'', mark_enc ''E2''] ''hello'' = Some (mark_enc ''E2'')"
          "last_match [mark_enc ''E1'', reject_enc] ''hello'' = Some (mark_enc ''E1'')"
          "last_match [reject_enc] ''hello'' = None"
          "last_match [] ''hello'' = None"
    by (simp_all add: last_match_def validates_def mark_enc_def reject_enc_def)
  have d: "decode (mark_enc ''E2'') ''hello'' = Inr ''E2hello''"
          "decode (mark_enc ''E1'') ''hello'' = Inr ''E1hello''"
    by (simp_all add: mark_enc_def)
  note t = openEncoded_last_match_wins [OF o k, of "''/r/a.txt''" "0x1A4" None "[]" _ run0,
      unfolded c, folded regular_def]
  from t [of "[mark_enc ''E1'', mark_enc ''E2'']"] t [of "[mark_enc ''E1'', reject_enc]"]
       t [of "[reject_enc]"] t [of "[]"]
  show ?thesis
    by (auto simp: v d)
qed

text \<open>The three cases the spec names.\<close>

lemma last_match_both: "validates E1 d \<Longrightarrow> validates E2 d \<Longrightarrow> last_match [E1, E2] d = Some E2"
  by (simp add: last_match_def)
lemma last_match_first_only: "validates E1 d \<Longrightarrow> \<not> validates E2 d \<Longrightarrow> last_match [E1, E2] d = Some E1"
  by (simp add: last_match_def)
lemma last_match_single: "validates E1 d \<Longrightarrow> last_match [E1] d = Some E1"
  by (simp add: last_match_def)
lemma last_match_none: "\<forall>enc\<in>set encodings. \<not> validates enc d \<Longrightarrow> last_match encodings d = None"
  by (simp add: last_match_def filter_empty_conv[THEN iffD2] split: list.splits)



subsection \<open>The walk: skipped names\<close>

lemma walkFn_hidden:
  "hidden path \<Longrightarrow> snd (walkFn encodings path e info err s) = s"
  by (simp add: walkFn_def hidden_def split: option.splits)

lemma openEncoded_ix: "ix (snd (openEncoded name e encodings s)) = ix s"
  by (simp add: openEncoded_def Let_def split: sum.splits prod.splits)

lemma walkFn_indexed:
  "indexed (snd (walkFn encodings path e info err s)) \<subseteq> indexed s \<union> (if hidden path then {} else {path})"
proof (cases "hidden path")
  case True
  then show ?thesis by (simp add: walkFn_hidden)
next
  case False
  obtain res s1 where oe: "openEncoded path e encodings s = (res, s1)" by (cases "openEncoded path e encodings s")
  with openEncoded_ix [of path e encodings s] have "ix s1 = ix s" by simp
  with False oe show ?thesis
    by (auto simp: walkFn_def hidden_def indexed_def Close_def Add_def Let_def
             split: option.splits sum.splits)
qed

lemma walk_indexed:
  "indexed (snd (walk encodings path e s)) \<subseteq> indexed s \<union> set (reachable path e)"
  "indexed (snd (walk_names encodings path cs s)) \<subseteq> indexed s \<union> set (reachable_names path cs)"
proof (induction encodings path e s and encodings path cs s rule: walk_walk_names.induct)
  case (1 encodings path x s)
  from walkFn_indexed [of encodings path "NoStat x" None "Some x" s] show ?case
    by (auto split: if_splits)
next
  case (2 encodings path m f rd cs s)
  let ?e = "Node m f rd cs"
  show ?case
  proof (cases "IsDir m")
    case False
    with walkFn_indexed [of encodings path ?e "Some m" None s] show ?thesis
      by (auto split: if_splits)
  next
    case True
    obtain err1 s1 where w: "walkFn encodings path ?e (Some m) rd s = (err1, s1)"
      by (cases "walkFn encodings path ?e (Some m) rd s")
    from walkFn_indexed [of encodings path ?e "Some m" rd s] w
    have s1: "indexed s1 \<subseteq> indexed s \<union> (if hidden path then {} else {path})" by simp
    show ?thesis
    proof (cases "rd \<noteq> None \<or> err1 \<noteq> None")
      case stop: True
      with True w s1 show ?thesis by (auto split: if_splits)
    next
      case go: False
      have nh: "\<not> hidden path"
      proof
        assume h: "hidden path"
        with w True have "err1 = Some SkipDir" by (simp add: walkFn_def hidden_def)
        with go show False by simp
      qed
      from "2.IH" [OF _ w [symmetric] refl] True go
      have "indexed (snd (walk_names encodings path cs s1)) \<subseteq> indexed s1 \<union> set (reachable_names path cs)"
        by simp
      with True w go s1 nh show ?thesis by auto
    qed
  qed
next
  case (3 encodings path s)
  then show ?case by simp
next
  case (4 encodings path name e rest s)
  obtain err s1 where w: "walk encodings (Join path name) e s = (err, s1)"
    by (cases "walk encodings (Join path name) e s")
  from "4.IH"(1) [OF refl] w
  have a: "indexed s1 \<subseteq> indexed s \<union> set (reachable (Join path name) e)" by simp
  let ?stop = "(case e of NoStat x \<Rightarrow> err \<noteq> None \<and> err \<noteq> Some SkipDir
                 | Node m f rd cs \<Rightarrow> err \<noteq> None \<and> (\<not> IsDir m \<or> err \<noteq> Some SkipDir))"
  show ?case
  proof (cases ?stop)
    case True
    with w a show ?thesis by (auto simp: Let_def)
  next
    case False
    from "4.IH"(2) [OF refl w [symmetric] refl] False
    have "indexed (snd (walk_names encodings path rest s1)) \<subseteq> indexed s1 \<union> set (reachable_names path rest)"
      by simp
    with False w a show ?thesis by (auto simp: Let_def)
  qed
qed

lemma reachable_hidden: "hidden p \<Longrightarrow> reachable p e = []"
  by (cases e) simp_all

text \<open>The visit of a hidden entry, with all that is below it, leaves the run as it was.\<close>

lemma walk_hidden: "hidden p \<Longrightarrow> snd (walk encodings p e s) = s"
proof (cases e)
  case (NoStat x)
  assume "hidden p"
  with NoStat walkFn_hidden [of p encodings e None "Some x" s] show ?thesis by simp
next
  case (Node m f rd cs)
  assume h: "hidden p"
  then have "walkFn encodings p e (Some m) err s = (if IsDir m then Some SkipDir else None, s)" for err
    by (auto simp: walkFn_def hidden_def Let_def)
  with Node show ?thesis by simp
qed

lemma Walk_indexed:
  "indexed (snd (Walk encodings root e s)) \<subseteq> indexed s \<union> set (reachable root e)"
  using walk_indexed(1) [of encodings root e s]
  by (simp add: Walk_def split_def Let_def)




lemma slash_root_not_tested: "root \<noteq> [] \<Longrightarrow> last root = CHR ''/'' \<Longrightarrow> \<not> hidden root"
proof -
  assume "root \<noteq> []" and "last root = CHR ''/''"
  then have "hd (rev root) = CHR ''/''" by (simp add: hd_rev)
  with \<open>root \<noteq> []\<close> have "takeWhile (\<lambda>c. c \<noteq> CHR ''/'') (rev root) = []"
    by (cases "rev root") auto
  then show ?thesis by (simp add: hidden_def Split_def)
qed




subsection \<open>The walk: traversal errors\<close>

lemma walk_traversal_error:
  assumes "traversal_error e = Some x" and "\<not> hidden p"
  shows "walk encodings p e s = (None, s\<lparr>logs := logs s @ [TraverseError p x]\<rparr>)"
proof (cases e)
  case (NoStat y)
  with assms show ?thesis by (auto simp: traversal_error_def walkFn_def hidden_def Let_def)
next
  case (Node m f rd cs)
  with assms have "IsDir m" "rd = Some x" by (simp_all add: traversal_error_def split: if_splits)
  with Node assms(2) show ?thesis by (auto simp: walkFn_def hidden_def Let_def)
qed

lemma walk_hidden_with_info:
  assumes "hidden p"
  shows "walk encodings p (Node m f rd cs) s = (if IsDir m then Some SkipDir else None, s)"
  using assms by (auto simp: walkFn_def hidden_def Let_def)

text \<open>
  C8, as the code has it: a traversal error on an entry whose base name is not a skipped
  one is logged and the entry passed over, at the root and inside a directory, where the
  walk goes on with the next name; on an entry with a skipped name and file information
  the error is not logged, the entry is passed over as hidden.
\<close>

theorem traversal_error_logged_and_skipped:
  assumes "traversal_error e = Some x"
  shows "(\<not> hidden root \<longrightarrow>
            Walk encodings root e s = (None, s\<lparr>logs := logs s @ [TraverseError root x]\<rparr>)) \<and>
         (\<not> hidden (Join dir name) \<longrightarrow>
            walk_names encodings dir ((name, e) # rest) s =
              walk_names encodings dir rest (s\<lparr>logs := logs s @ [TraverseError (Join dir name) x]\<rparr>)) \<and>
         (hidden (Join dir name) \<and> has_info e \<longrightarrow>
            walk_names encodings dir ((name, e) # rest) s = walk_names encodings dir rest s)"
proof (intro conjI impI)
  assume "\<not> hidden root"
  from walk_traversal_error [OF assms this]
  show "Walk encodings root e s = (None, s\<lparr>logs := logs s @ [TraverseError root x]\<rparr>)"
    by (simp add: Walk_def)
next
  assume "\<not> hidden (Join dir name)"
  from walk_traversal_error [OF assms this]
  show "walk_names encodings dir ((name, e) # rest) s =
          walk_names encodings dir rest (s\<lparr>logs := logs s @ [TraverseError (Join dir name) x]\<rparr>)"
    by (simp add: Let_def split: entry.splits)
next
  assume a: "hidden (Join dir name) \<and> has_info e"
  then obtain m f rd cs where e: "e = Node m f rd cs" by (cases e) (simp_all add: has_info_def)
  with assms have "IsDir m" by (simp add: traversal_error_def split: if_splits)
  with e a walk_hidden_with_info [of "Join dir name" encodings m f rd cs s]
  show "walk_names encodings dir ((name, e) # rest) s = walk_names encodings dir rest s"
    by (simp add: Let_def)
qed

theorem traversal_error_logged_and_skipped_witness:
  "walk_names [] ''/r''
     [(''locked'', locked_dir), (''gone'', NoStat ''no such file or directory''),
      (''a.txt'', regular ''hello'')] run0 =
     (None, run0\<lparr>ix := Add ''/r/a.txt'' ''hello'' (ix run0),
                 logs := [TraverseError ''/r/locked'' ''permission denied'',
                          TraverseError ''/r/gone'' ''no such file or directory'']\<rparr>)"
proof -
  have h1: "traversal_error locked_dir = Some ''permission denied''"
    by (simp add: traversal_error_def locked_dir_def IsDir_def ModeDir_def)
  have h2: "traversal_error (NoStat ''no such file or directory'') = Some ''no such file or directory''"
    by (simp add: traversal_error_def)
  have n1: "\<not> hidden (Join ''/r'' ''locked'')" and n2: "\<not> hidden (Join ''/r'' ''gone'')"
    by (simp_all add: hidden_def Join_def Split_def skipped_name_def)
  have j: "Join ''/r'' ''locked'' = ''/r/locked''" "Join ''/r'' ''gone'' = ''/r/gone''"
    by (simp_all add: Join_def)
  note t1 = traversal_error_logged_and_skipped [OF h1, THEN conjunct2, THEN conjunct1, rule_format, OF n1]
  note t2 = traversal_error_logged_and_skipped [OF h2, THEN conjunct2, THEN conjunct1, rule_format, OF n2]
  have a: "walk_names [] ''/r'' [(''a.txt'', regular ''hello'')] s =
          (None, s\<lparr>ix := Add ''/r/a.txt'' ''hello'' (ix s)\<rparr>)" for s
    by (simp add: Let_def regular_def walkFn_def Split_def Join_def
        skipped_name_def IsDir_def ModeDir_def ModeType_def openEncoded_def os_Open_def
        read_all_def remaining_def Close_def Add_def)
  have "walk_names [] ''/r''
          [(''locked'', locked_dir), (''gone'', NoStat ''no such file or directory''),
           (''a.txt'', regular ''hello'')] run0 =
        walk_names [] ''/r''
          [(''gone'', NoStat ''no such file or directory''), (''a.txt'', regular ''hello'')]
          (run0\<lparr>logs := logs run0 @ [TraverseError (Join ''/r'' ''locked'') ''permission denied'']\<rparr>)"
    by (rule t1)
  also have "\<dots> =
        walk_names [] ''/r'' [(''a.txt'', regular ''hello'')]
          (run0\<lparr>logs := logs run0 @ [TraverseError (Join ''/r'' ''locked'') ''permission denied'']\<rparr>
               \<lparr>logs := logs (run0\<lparr>logs := logs run0 @ [TraverseError (Join ''/r'' ''locked'') ''permission denied'']\<rparr>)
                     @ [TraverseError (Join ''/r'' ''gone'') ''no such file or directory'']\<rparr>)"
    by (rule t2)
  also have "\<dots> = (None, run0\<lparr>ix := Add ''/r/a.txt'' ''hello'' (ix run0),
                 logs := [TraverseError ''/r/locked'' ''permission denied'',
                          TraverseError ''/r/gone'' ''no such file or directory'']\<rparr>)"
    unfolding a by (simp add: j run0_def)
  finally show ?thesis .
qed

text \<open>C8 as stated fails: the error of a hidden directory that cannot be read is not logged.\<close>

theorem hidden_directory_error_not_logged:
  "traversal_error locked_dir = Some ''permission denied'' \<and>
   Walk [] ''/r'' (directory [(''.cache'', locked_dir)]) run0 = (None, run0) \<and>
   logs run0 = []"
  by (simp add: traversal_error_def locked_dir_def Walk_def directory_def walkFn_def Split_def
        Join_def skipped_name_def IsDir_def ModeDir_def ModeType_def openEncoded_def os_Open_def
        read_all_def remaining_def Close_def run0_def Let_def)


subsection \<open>The session during the walk\<close>

text \<open>The walk changes the writer only by adding content at the end of what is queued.\<close>

lemma grows_trans:
  "w1 = w\<lparr>wdocs := wdocs w @ ys\<rparr> \<Longrightarrow> w2 = w1\<lparr>wdocs := wdocs w1 @ zs\<rparr> \<Longrightarrow>
     w2 = w\<lparr>wdocs := wdocs w @ (ys @ zs)\<rparr>"
  by simp

lemma walkFn_grows: "\<exists>ys. ix (snd (walkFn encodings path e info err s)) = (ix s)\<lparr>wdocs := wdocs (ix s) @ ys\<rparr>"
proof -
  obtain res s1 where oe: "openEncoded path e encodings s = (res, s1)"
    by (cases "openEncoded path e encodings s")
  with openEncoded_ix [of path e encodings s] have i: "ix s1 = ix s" by simp
  have z: "ix s = (ix s)\<lparr>wdocs := wdocs (ix s) @ []\<rparr>" by simp
  have "ix (snd (walkFn encodings path e info err s)) = ix s \<or>
        (\<exists>data. ix (snd (walkFn encodings path e info err s)) = Add path data (ix s))"
    using oe i by (auto simp: walkFn_def Let_def Close_def split: option.splits sum.splits)
  then show ?thesis
  proof
    assume "ix (snd (walkFn encodings path e info err s)) = ix s"
    with z show ?thesis by metis
  next
    assume "\<exists>data. ix (snd (walkFn encodings path e info err s)) = Add path data (ix s)"
    then show ?thesis by (auto simp: Add_def)
  qed
qed

lemma walk_grows:
  "\<exists>ys. ix (snd (walk encodings path e s)) = (ix s)\<lparr>wdocs := wdocs (ix s) @ ys\<rparr>"
  "\<exists>ys. ix (snd (walk_names encodings path cs s)) = (ix s)\<lparr>wdocs := wdocs (ix s) @ ys\<rparr>"
proof (induction encodings path e s and encodings path cs s rule: walk_walk_names.induct)
  case (1 encodings path x s)
  show ?case using walkFn_grows [of encodings path "NoStat x" None "Some x" s] by simp
next
  case (2 encodings path m f rd cs s)
  let ?e = "Node m f rd cs"
  show ?case
  proof (cases "IsDir m")
    case False
    with walkFn_grows [of encodings path ?e "Some m" None s] show ?thesis by simp
  next
    case True
    obtain err1 s1 where w: "walkFn encodings path ?e (Some m) rd s = (err1, s1)"
      by (cases "walkFn encodings path ?e (Some m) rd s")
    from walkFn_grows [of encodings path ?e "Some m" rd s] w
    obtain ys where s1: "ix s1 = (ix s)\<lparr>wdocs := wdocs (ix s) @ ys\<rparr>" by auto
    show ?thesis
    proof (cases "rd \<noteq> None \<or> err1 \<noteq> None")
      case stop: True
      with True w s1 show ?thesis by auto
    next
      case go: False
      from "2.IH" [OF _ w [symmetric] refl] True go
      obtain zs where "ix (snd (walk_names encodings path cs s1)) = (ix s1)\<lparr>wdocs := wdocs (ix s1) @ zs\<rparr>"
        by auto
      with s1 have "ix (snd (walk_names encodings path cs s1)) = (ix s)\<lparr>wdocs := wdocs (ix s) @ (ys @ zs)\<rparr>"
        by simp
      with True w go show ?thesis by auto
    qed
  qed
next
  case (3 encodings path s)
  have "ix s = (ix s)\<lparr>wdocs := wdocs (ix s) @ []\<rparr>" by simp
  then show ?case by (metis walk_names.simps(1) snd_conv)
next
  case (4 encodings path name e rest s)
  obtain err s1 where w: "walk encodings (Join path name) e s = (err, s1)"
    by (cases "walk encodings (Join path name) e s")
  from "4.IH"(1) [OF refl] w
  obtain ys where a: "ix s1 = (ix s)\<lparr>wdocs := wdocs (ix s) @ ys\<rparr>" by auto
  let ?stop = "(case e of NoStat x \<Rightarrow> err \<noteq> None \<and> err \<noteq> Some SkipDir
                 | Node m f rd cs \<Rightarrow> err \<noteq> None \<and> (\<not> IsDir m \<or> err \<noteq> Some SkipDir))"
  show ?case
  proof (cases ?stop)
    case True
    with w a show ?thesis by (auto simp: Let_def)
  next
    case False
    from "4.IH"(2) [OF refl w [symmetric] refl] False
    obtain zs where "ix (snd (walk_names encodings path rest s1)) = (ix s1)\<lparr>wdocs := wdocs (ix s1) @ zs\<rparr>"
      by auto
    with a have "ix (snd (walk_names encodings path rest s1)) = (ix s)\<lparr>wdocs := wdocs (ix s) @ (ys @ zs)\<rparr>"
      by simp
    with False w show ?thesis by (auto simp: Let_def)
  qed
qed

lemma Walk_grows:
  "\<exists>ys. ix (snd (Walk encodings root e s)) = (ix s)\<lparr>wdocs := wdocs (ix s) @ ys\<rparr>"
  using walk_grows(1) [of encodings root e s] by (simp add: Walk_def split_def Let_def)

lemma index_roots_grows:
  "\<exists>ys. ix (snd (index_roots encodings tree args s)) = (ix s)\<lparr>wdocs := wdocs (ix s) @ ys\<rparr>"
proof (induction args arbitrary: s)
  case Nil
  have "ix s = (ix s)\<lparr>wdocs := wdocs (ix s) @ []\<rparr>" by simp
  then show ?case by (metis index_roots.simps(1) snd_conv)
next
  case (Cons arg args)
  let ?s1 = "s\<lparr>logs := logs s @ [IndexRoot arg]\<rparr>"
  obtain err s2 where w: "Walk encodings arg (tree arg) ?s1 = (err, s2)"
    by (cases "Walk encodings arg (tree arg) ?s1")
  from Walk_grows [of encodings arg "tree arg" ?s1] w
  obtain ys where a: "ix s2 = (ix s)\<lparr>wdocs := wdocs (ix s) @ ys\<rparr>" by auto
  from Cons.IH [of s2]
  obtain zs where "ix (snd (index_roots encodings tree args s2)) = (ix s2)\<lparr>wdocs := wdocs (ix s2) @ zs\<rparr>"
    by auto
  with a have "ix (snd (index_roots encodings tree args s2)) = (ix s)\<lparr>wdocs := wdocs (ix s) @ (ys @ zs)\<rparr>"
    by simp
  with w a show ?case by (auto simp: Let_def)
qed

lemma index_roots_target: "target (ix (snd (index_roots encodings tree args s))) = target (ix s)"
  using index_roots_grows [of encodings tree args s] by auto

subsection \<open>main: an unknown encoding\<close>

lemma parse_encodings_unknown:
  "name \<in> set names \<Longrightarrow> TrimSpace name \<noteq> [] \<Longrightarrow> get (TrimSpace name) = Inl err \<Longrightarrow>
     \<exists>n e. parse_encodings get names acc = Inl (EncodingError n e) \<and> get n = Inl e"
proof (induction names arbitrary: acc)
  case Nil
  then show ?case by simp
next
  case (Cons x names)
  show ?case
  proof (cases "x = name")
    case True
    with Cons.prems show ?thesis by (simp add: Let_def)
  next
    case False
    with Cons.prems have "name \<in> set names" by simp
    from Cons.IH [OF this Cons.prems(2,3)] show ?thesis
      by (auto simp: Let_def split: sum.splits)
  qed
qed

text \<open>
  C6, as the code has it: in a run that is neither \<open>-list\<close> nor \<open>-reset\<close> without paths,
  an encoding name that \<open>htmlindex.Get\<close> does not know is logged and \<open>main\<close> returns
  before the session is created: no index file is created or changed.
\<close>

theorem unknown_encoding_returns_before_session:
  assumes "\<not> listFlag fl" and "\<not> (resetFlag fl \<and> args = [])"
    and "name \<in> set (split_comma (encodingsFlag fl))"
    and "TrimSpace name \<noteq> []" and "Get env (TrimSpace name) = Inl err"
  shows "status (main env fl args st0) = Returned \<and>
         store (main env fl args st0) = st0 \<and>
         trace (main env fl args st0) = [] \<and>
         session (main env fl args st0) = None \<and>
         (\<exists>pre n e. log (main env fl args st0) = pre @ [EncodingError n e] \<and> Get env n = Inl e)"
proof -
  from parse_encodings_unknown [where get = "Get env" and acc = "[]", OF assms(3,4,5)]
  obtain n e where p: "parse_encodings (Get env) (split_comma (encodingsFlag fl)) [] = Inl (EncodingError n e)"
    and g: "Get env n = Inl e" by blast
  obtain args2 lg where c: "canonical_args (sys env) (if args = [] then Paths st0 (master env) else args) = (args2, lg)"
    by (cases "canonical_args (sys env) (if args = [] then Paths st0 (master env) else args)")
  from assms(1,2) p c g show ?thesis
    by (auto simp: main_def Let_def)
qed


theorem unknown_encoding_returns_before_session_witness:
  "store (main demo_env (no_flags\<lparr>encodingsFlag := ''utf8, bogus''\<rparr>) [''/r''] demo_store) = demo_store \<and>
   session (main demo_env (no_flags\<lparr>encodingsFlag := ''utf8, bogus''\<rparr>) [''/r''] demo_store) = None \<and>
   log (main demo_env (no_flags\<lparr>encodingsFlag := ''utf8, bogus''\<rparr>) [''/r''] demo_store) =
     [EncodingError ''bogus'' ''htmlindex: invalid encoding name'']"
proof -
  let ?fl = "no_flags\<lparr>encodingsFlag := ''utf8, bogus''\<rparr>"
  have h1: "\<not> listFlag ?fl" and h2: "\<not> (resetFlag ?fl \<and> [''/r''] = [])" by (simp_all add: no_flags_def)
  have h3: "'' bogus'' \<in> set (split_comma (encodingsFlag ?fl))" by (simp add: no_flags_def)
  have h4: "TrimSpace '' bogus'' \<noteq> []" by (simp add: TrimSpace_def is_space_def)
  have h5: "Get demo_env (TrimSpace '' bogus'') = Inl ''htmlindex: invalid encoding name''"
    by (simp add: TrimSpace_def is_space_def demo_env_def known_encodings_def)
  have l: "log (main demo_env ?fl [''/r''] demo_store) = [EncodingError ''bogus'' ''htmlindex: invalid encoding name'']"
    by (simp add: eval_defs)
  from unknown_encoding_returns_before_session [OF h1 h2 h3 h4 h5, of demo_store] l show ?thesis by simp
qed

text \<open>
  C6 as stated fails: with \<open>-reset\<close> and no paths the published index is removed and the
  unknown name is never looked at, so nothing is logged.
\<close>

theorem reset_ignores_unknown_encoding:
  "(let r = main demo_env (no_flags\<lparr>resetFlag := True, encodingsFlag := ''bogus''\<rparr>) [] demo_store
    in Get demo_env ''bogus'' = Inl ''htmlindex: invalid encoding name'' \<and>
       demo_store ''/idx'' = Some old_index \<and>
       status r = Returned \<and> log r = [] \<and> store r ''/idx'' = None)"
  by (simp add: eval_defs)

text \<open>With \<open>-list\<close>, or \<open>-reset\<close> and no paths, the run does not depend on \<open>-encodings\<close>.\<close>

lemma encodings_not_examined:
  "listFlag fl \<or> (resetFlag fl \<and> args = []) \<Longrightarrow>
     main env (fl\<lparr>encodingsFlag := x\<rparr>) args st0 = main env fl args st0 \<and>
     log (main env fl args st0) = []"
  by (auto simp: main_def)

subsection \<open>main: publishing\<close>

lemma map_const_replicate: "\<forall>x\<in>set xs. f x = c \<Longrightarrow> map f xs = replicate (length xs) c"
  by (induction xs) simp_all

text \<open>
  C1: in a run that updates an existing index (no \<open>-list\<close>, no \<open>-reset\<close>, encodings
  known, no panic) the index files go through five states: after the session is created,
  after the flush to the staging file (master with one tilde), after the merge into the
  temporary file (master with two tildes), after the staging file is removed, and after
  the temporary file is renamed to the master. In all but the last the master is the old
  index, untouched.
\<close>

theorem incremental_publish_keeps_old_index:
  assumes "\<not> listFlag fl" and "\<not> resetFlag fl" and "st0 (master env) = Some old"
    and "parse_encodings (Get env) (split_comma (encodingsFlag fl)) [] = Inr encodings"
    and "status (main env fl args st0) = Returned"
  shows "\<exists>staged merged.
           merged = merge_index old staged \<and>
           length (trace (main env fl args st0)) = 5 \<and>
           (\<forall>st\<in>set (butlast (trace (main env fl args st0))). st (master env) = Some old) \<and>
           (trace (main env fl args st0) ! 1) (master env @ ''~'') = Some staged \<and>
           (trace (main env fl args st0) ! 2) (master env @ ''~'') = Some staged \<and>
           (trace (main env fl args st0) ! 2) (master env @ ''~~'') = Some merged \<and>
           (trace (main env fl args st0) ! 3) (master env @ ''~'') = None \<and>
           (trace (main env fl args st0) ! 3) (master env @ ''~~'') = Some merged \<and>
           (trace (main env fl args st0) ! 4) (master env) = Some merged \<and>
           (trace (main env fl args st0) ! 4) (master env @ ''~'') = None \<and>
           (trace (main env fl args st0) ! 4) (master env @ ''~~'') = None \<and>
           store (main env fl args st0) = trace (main env fl args st0) ! 4"
proof -
  let ?M = "master env"
  obtain args2 lg where c: "canonical_args (sys env) (if args = [] then Paths st0 ?M else args) = (args2, lg)"
    by (cases "canonical_args (sys env) (if args = [] then Paths st0 ?M else args)")
  let ?w1 = "AddPaths args2 ((Create (?M @ ''~''))\<lparr>Verbose := verboseFlag fl\<rparr>)"
  obtain panicked s where i: "index_roots encodings (fs env) args2 \<lparr>ix = ?w1, logs = lg, fds = []\<rparr> = (panicked, s)"
    by (cases "index_roots encodings (fs env) args2 \<lparr>ix = ?w1, logs = lg, fds = []\<rparr>")
  from assms c i have np: "\<not> panicked"
    by (auto simp: main_def Let_def Stat_ok_def Create_def split: if_splits)
  let ?staged = "\<lparr>roots = wroots (ix s), docs = wdocs (ix s)\<rparr>"
  from index_roots_target [of encodings "fs env" args2 "\<lparr>ix = ?w1, logs = lg, fds = []\<rparr>"] i
  have t: "target (ix s) = ?M @ ''~''" by (simp add: AddPaths_def Create_def)
  let ?st2 = "st0(?M @ ''~'' \<mapsto> ?staged)"
  let ?st3 = "?st2(?M @ ''~~'' \<mapsto> merge_index old ?staged)"
  let ?st4 = "?st3(?M @ ''~'' := None)"
  let ?st5 = "(?st4(?M @ ''~~'' := None))(?M \<mapsto> merge_index old ?staged)"
  from assms c i np t have tr: "trace (main env fl args st0) = [st0, ?st2, ?st3, ?st4, ?st5]"
    and st: "store (main env fl args st0) = ?st5"
    by (simp_all add: main_def Let_def Stat_ok_def Create_def Flush_def Merge_def Remove_def Rename_def)
  show ?thesis
    apply (rule exI [of _ ?staged])
    apply (rule exI [of _ "merge_index old ?staged"])
    apply (simp only: tr st)
    apply (simp add: assms(3))
    done
qed



theorem incremental_publish_keeps_old_index_witness:
  "map (\<lambda>st. st ''/idx'') (butlast (trace (main demo_env no_flags [''/r''] demo_store))) =
     replicate 4 (Some old_index) \<and>
   store (main demo_env no_flags [''/r''] demo_store) ''/idx'' =
     Some \<lparr>roots = [''/old'', ''/r''], docs = [(''/old/x'', ''x''), (''/r/a.txt'', ''hello'')]\<rparr>"
proof -
  let ?t = "trace (main demo_env no_flags [''/r''] demo_store)"
  have h1: "\<not> listFlag no_flags" and h2: "\<not> resetFlag no_flags" by (simp_all add: no_flags_def)
  have h3: "demo_store (master demo_env) = Some old_index" by (simp add: demo_store_def demo_env_def)
  have h4: "parse_encodings (Get demo_env) (split_comma (encodingsFlag no_flags)) [] = Inr []"
    by (simp add: no_flags_def TrimSpace_def)
  have h5: "status (main demo_env no_flags [''/r''] demo_store) = Returned"
    by (simp add: eval_defs)
  have m: "master demo_env = ''/idx''" by (simp add: demo_env_def)
  have s: "store (main demo_env no_flags [''/r''] demo_store) ''/idx'' =
     Some \<lparr>roots = [''/old'', ''/r''], docs = [(''/old/x'', ''x''), (''/r/a.txt'', ''hello'')]\<rparr>"
    by (simp add: eval_defs)
  from incremental_publish_keeps_old_index [OF h1 h2 h3 h4 h5] m
  have l: "length ?t = 5" and a: "\<forall>st\<in>set (butlast ?t). st ''/idx'' = Some old_index"
    by auto
  from a have "map (\<lambda>st. st ''/idx'') (butlast ?t) = replicate (length (butlast ?t)) (Some old_index)"
    by (rule map_const_replicate)
  with l s show ?thesis by simp
qed




subsection \<open>Where the code departs from the spec\<close>

text \<open>
  When the callback returns nil, every handle it opened is closed again; and whatever the
  walk of a root returns, short of a panic, the loop over the roots goes on.
\<close>

lemma openEncoded_fds:
  "openEncoded name e encodings s = (Inr r, s1) \<Longrightarrow> hpath (rhandle r) = name \<and> fds s1 = name # fds s"
proof -
  assume a: "openEncoded name e encodings s = (Inr r, s1)"
  then obtain fh where o: "os_Open name e = Inr fh"
    by (auto simp: openEncoded_def split: sum.splits)
  then have fh: "hpos fh = 0" "hpath fh = name"
    by (auto simp: os_Open_def split: entry.splits option.splits)
  from a o obtain fh1 found where p: "probe fh encodings None = Inr (fh1, found)"
    and r: "r = \<lparr>rhandle = fh1, rdecoder = found\<rparr>" and s1: "s1 = s\<lparr>fds := name # fds s\<rparr>"
    by (auto simp: openEncoded_def Let_def split: sum.splits)
  from probe_result [OF fh(1) p] fh(2) r s1 show ?thesis by simp
qed

lemma walkFn_closes_handle:
  "fst (walkFn encodings path e info err s) = None \<Longrightarrow>
     fds (snd (walkFn encodings path e info err s)) = fds s"
proof -
  assume a: "fst (walkFn encodings path e info err s) = None"
  obtain res s1 where oe: "openEncoded path e encodings s = (res, s1)"
    by (cases "openEncoded path e encodings s")
  show ?thesis
  proof (cases res)
    case (Inl x)
    with a oe show ?thesis
      by (auto simp: walkFn_def Let_def split: option.splits if_splits)
  next
    case (Inr r)
    with oe openEncoded_fds [of path e encodings s r s1]
    have "hpath (rhandle r) = path" "fds s1 = path # fds s" by simp_all
    with a oe Inr show ?thesis
      by (auto simp: walkFn_def Let_def Close_def split: option.splits if_splits sum.splits)
  qed
qed

lemma index_roots_goes_on:
  "Walk encodings arg (tree arg) (s\<lparr>logs := logs s @ [IndexRoot arg]\<rparr>) = (err, s2) \<Longrightarrow>
   err \<noteq> Some Panic \<Longrightarrow>
     index_roots encodings tree (arg # args) s = index_roots encodings tree args s2"
  by simp

lemma failed_open_not_logged:
  "\<not> hidden path \<Longrightarrow> m AND ModeType = 0 \<Longrightarrow>
   openEncoded path (Node m f rd cs) encodings s = (Inl x, s1) \<Longrightarrow>
     walkFn encodings path (Node m f rd cs) (Some m) None s = (Some (Failure path x), s1) \<and>
     logs s1 = logs s"
  by (auto simp: walkFn_def hidden_def Let_def openEncoded_def split: sum.splits)

text \<open>
  C3: the error that \<open>openEncoded\<close> returns ends the walk of its root, but \<open>main\<close>
  drops what \<open>filepath.Walk\<close> returns: for the roots \<open>/a\<close> (cannot be opened) and \<open>/b\<close>
  nothing is logged about \<open>/a\<close>, \<open>/b\<close> is indexed, and the run flushes and ends normally.
\<close>

theorem failed_open_is_dropped:
  "(let r = main demo_env no_flags [''/a'', ''/b''] Map.empty
    in status r = Returned \<and>
       log r = [IndexRoot ''/a'', IndexRoot ''/b'', FlushIndex, Done] \<and>
       store r ''/idx'' = Some \<lparr>roots = [''/a'', ''/b''], docs = [(''/b'', ''hello'')]\<rparr>)"
  by (simp add: eval_defs)

text \<open>
  C9: when \<open>Seek\<close> fails \<open>openEncoded\<close> returns the error without closing the handle
  it opened: after the run the handle of \<open>/s\<close> is still open.
\<close>

theorem failed_seek_leaks_handle:
  "(let r = main demo_env (no_flags\<lparr>encodingsFlag := ''utf8''\<rparr>) [''/s''] Map.empty
    in status r = Returned \<and> open_files r = [''/s''] \<and>
       log r = [IndexRoot ''/s'', FlushIndex, Done])"
  by (simp add: eval_defs)

text \<open>
  A root with a skipped name that does not exist: the callback calls \<open>info.IsDir()\<close> on
  the nil \<open>info\<close> and the run panics; nothing is flushed.
\<close>

lemma hidden_missing_root_panics:
  "(let r = main demo_env no_flags [''/r/.cache''] Map.empty
    in status r = Panicked \<and> log r = [IndexRoot ''/r/.cache''] \<and>
       store r ''/idx'' = None)"
  by (simp add: eval_defs)


end
